theory Spec2Isabelle
  imports Main "HOL-Library.AList"
begin

section \<open>Data model of the rate limiter\<close>

text \<open>
  The embedding follows \<^verbatim>\<open>src/durable-object.ts\<close>. A JavaScript \<^verbatim>\<open>number\<close>
  holding a count, an epoch-millisecond instant or a duration is an \<^typ>\<open>int\<close>: the
  values the limiter handles are integers far below \<open>2^53\<close>, where the arithmetic
  of the source (\<open>+\<close>, \<open>-\<close>, \<open><\<close>, \<open>>=\<close>) is exact.
\<close>

text \<open>\<^verbatim>\<open>const CLEANUP_INTERVAL_MS = 12 * 60 * 60 * 1000\<close> (12 hours).\<close>

definition CLEANUP_INTERVAL_MS :: int where
  "CLEANUP_INTERVAL_MS = 12 * 60 * 60 * 1000"

text \<open>\<^verbatim>\<open>type RateLimitEntry = { count; timestamp; windowMs }\<close>.\<close>

record RateLimitEntry =
  count :: int
  timestamp :: int
  windowMs :: int

text \<open>The object returned by \<^verbatim>\<open>checkLimit\<close>: \<^verbatim>\<open>{ success, remaining, reset, limit }\<close>.\<close>

record RateLimitResult =
  success :: bool
  remaining :: int
  reset :: int
  limit :: int

section \<open>The storage collaborator\<close>

text \<open>
  Modelled from the spec: the keyed durable storage of the platform
  (\<^verbatim>\<open>DurableObjectStorage\<close>, section 6 of the specification: \<open>get\<close>, \<open>put\<close>,
  \<open>delete\<close>, \<open>list\<close>, \<open>getAlarm\<close>, \<open>setAlarm\<close>), which the repository only
  consumes. The key space is an association list in insertion order, as the
  \<^verbatim>\<open>Map\<close> of the test double in \<^verbatim>\<open>durable-object.test.ts\<close>; there is at most one
  pending alarm deadline. Every call issued to the storage is appended to \<open>ops\<close>,
  so that "no delete call" and "no storage access" are statements about a state.
\<close>

datatype storage_op =
    OpGet string
  | OpPut string RateLimitEntry
  | OpDelete "string list"
  | OpList
  | OpGetAlarm
  | OpSetAlarm int

record actor =
  kv :: "(string \<times> RateLimitEntry) list"
  alarmTime :: "int option"
  ops :: "storage_op list"

definition storage_get :: "string \<Rightarrow> actor \<Rightarrow> RateLimitEntry option \<times> actor" where
  "storage_get key s = (map_of (kv s) key, s\<lparr>ops := ops s @ [OpGet key]\<rparr>)"

definition storage_put :: "string \<Rightarrow> RateLimitEntry \<Rightarrow> actor \<Rightarrow> actor" where
  "storage_put key v s =
     s\<lparr>kv := AList.update key v (kv s), ops := ops s @ [OpPut key v]\<rparr>"

definition storage_delete :: "string list \<Rightarrow> actor \<Rightarrow> actor" where
  "storage_delete keys s =
     s\<lparr>kv := filter (\<lambda>(k, v). k \<notin> set keys) (kv s), ops := ops s @ [OpDelete keys]\<rparr>"

definition storage_list :: "actor \<Rightarrow> (string \<times> RateLimitEntry) list \<times> actor" where
  "storage_list s = (kv s, s\<lparr>ops := ops s @ [OpList]\<rparr>)"

definition storage_getAlarm :: "actor \<Rightarrow> int option \<times> actor" where
  "storage_getAlarm s = (alarmTime s, s\<lparr>ops := ops s @ [OpGetAlarm]\<rparr>)"

definition storage_setAlarm :: "int \<Rightarrow> actor \<Rightarrow> actor" where
  "storage_setAlarm t s = s\<lparr>alarmTime := Some t, ops := ops s @ [OpSetAlarm t]\<rparr>"

text \<open>A freshly created actor: nothing stored, no deadline, no call issued yet.\<close>

definition empty_actor :: actor where
  "empty_actor = \<lparr>kv = [], alarmTime = None, ops = []\<rparr>"

text \<open>The keys of a \<^verbatim>\<open>Map\<close> are unique.\<close>

definition storage_ok :: "actor \<Rightarrow> bool" where
  "storage_ok s = distinct (map fst (kv s))"

section \<open>The limiter actor\<close>

text \<open>
  \<^verbatim>\<open>scheduleCleanup\<close> (lines 109-115); \<open>now\<close> is the value of \<^verbatim>\<open>Date.now()\<close>.
\<close>

definition scheduleCleanup :: "actor \<Rightarrow> int \<Rightarrow> actor" where
  "scheduleCleanup s now =
     (let (existingAlarm, s1) = storage_getAlarm s
      in case existingAlarm of
           None \<Rightarrow> storage_setAlarm (now + CLEANUP_INTERVAL_MS) s1
         | Some a \<Rightarrow> s1)"

text \<open>
  The constructor (lines 18-26) runs \<^verbatim>\<open>scheduleCleanup\<close> under
  \<^verbatim>\<open>blockConcurrencyWhile\<close>: no other call is served before it has finished.
\<close>

definition construct :: "actor \<Rightarrow> int \<Rightarrow> actor" where
  "construct s now = scheduleCleanup s now"

text \<open>
  The loop of \<^verbatim>\<open>alarm\<close> (lines 36-44) that collects the keys to delete, in the
  order of the listing.
\<close>

fun expiredKeys :: "int \<Rightarrow> (string \<times> RateLimitEntry) list \<Rightarrow> string list" where
  "expiredKeys now [] = []"
| "expiredKeys now ((key, entry) # entries) =
     (let expirationTime = timestamp entry + windowMs entry
      in if expirationTime < now then key # expiredKeys now entries
         else expiredKeys now entries)"

text \<open>
  \<^verbatim>\<open>alarm\<close> (lines 31-54). The source reads the clock twice: \<open>now\<close> is the
  reading of line 33, against which expiry is judged, and \<open>now'\<close> the reading of
  line 51, from which the next deadline is computed.
\<close>

definition alarm :: "actor \<Rightarrow> int \<Rightarrow> int \<Rightarrow> actor" where
  "alarm s now now' =
     (let (entries, s1) = storage_list s;
          keys = expiredKeys now entries;
          s2 = (if length keys > 0 then storage_delete keys s1 else s1);
          nextCleanup = now' + CLEANUP_INTERVAL_MS
      in storage_setAlarm nextCleanup s2)"

text \<open>
  \<^verbatim>\<open>checkLimit\<close> (lines 64-104); \<open>now\<close> is its single reading of the clock.
  The first branch is taken when \<^verbatim>\<open>!entry || entry.timestamp < windowStart\<close>;
  past it the entry is defined, so \<open>the entry\<close> is the stored object.
\<close>

definition checkLimit ::
  "actor \<Rightarrow> int \<Rightarrow> string \<Rightarrow> int \<Rightarrow> int \<Rightarrow> RateLimitResult \<times> actor" where
  "checkLimit s now identifier mx wMs =
     (let windowStart = now - wMs;
          (entry, s1) = storage_get identifier s
      in if (case entry of None \<Rightarrow> True | Some e \<Rightarrow> timestamp e < windowStart) then
           (let e = \<lparr>count = 1, timestamp = now, windowMs = wMs\<rparr>;
                s2 = storage_put identifier e s1
            in (\<lparr>success = True, remaining = mx - 1, reset = now + wMs, limit = mx\<rparr>, s2))
         else
           (let e = the entry
            in if count e \<ge> mx then
                 (\<lparr>success = False, remaining = 0, reset = timestamp e + wMs, limit = mx\<rparr>, s1)
               else
                 (let e' = e\<lparr>count := count e + 1, windowMs := wMs\<rparr>;
                      s2 = storage_put identifier e' s1
                  in (\<lparr>success = True, remaining = mx - count e',
                       reset = timestamp e' + wMs, limit = mx\<rparr>, s2))))"

text \<open>Consecutive \<^verbatim>\<open>checkLimit\<close> calls with the same arguments, one per clock reading.\<close>

fun checkLimit_seq ::
  "actor \<Rightarrow> string \<Rightarrow> int \<Rightarrow> int \<Rightarrow> int list \<Rightarrow> RateLimitResult list \<times> actor" where
  "checkLimit_seq s identifier mx wMs [] = ([], s)"
| "checkLimit_seq s identifier mx wMs (now # nows) =
     (let (r, s1) = checkLimit s now identifier mx wMs;
          (rs, s2) = checkLimit_seq s1 identifier mx wMs nows
      in (r # rs, s2))"

text \<open>An arbitrary history of an actor: each event carries the clock readings it makes.\<close>

datatype event =
    Construct int
  | CheckLimit int string int int
  | Alarm int int

fun step :: "actor \<Rightarrow> event \<Rightarrow> actor" where
  "step s (Construct now) = construct s now"
| "step s (CheckLimit now identifier mx wMs) = snd (checkLimit s now identifier mx wMs)"
| "step s (Alarm now now') = alarm s now now'"

definition run :: "actor \<Rightarrow> event list \<Rightarrow> actor" where
  "run s evs = foldl step s evs"

text \<open>
  The adapter \<^verbatim>\<open>CloudflareDurableRateLimiter\<close>: its options, the prefix chosen by the
  constructor (\<^verbatim>\<open>options.prefix ?? "orpc:ratelimit:"\<close>), and \<^verbatim>\<open>limit(key)\<close>, which
  prefixes the key and calls \<^verbatim>\<open>checkLimit\<close> on the actor of that name; \<open>s\<close> is the
  state of that actor.
\<close>

record RatelimitOptions =
  prefix :: "string option"
  maxRequests :: int
  window :: int

definition adapter_prefix :: "RatelimitOptions \<Rightarrow> string" where
  "adapter_prefix options =
     (case prefix options of None \<Rightarrow> ''orpc:ratelimit:'' | Some p \<Rightarrow> p)"

definition adapter_limit ::
  "RatelimitOptions \<Rightarrow> actor \<Rightarrow> int \<Rightarrow> string \<Rightarrow> RateLimitResult \<times> actor" where
  "adapter_limit options s now key =
     (let prefixedKey = adapter_prefix options @ key
      in checkLimit s now prefixedKey (maxRequests options) (window options))"

text \<open>
  Sample states: a key space with two expired entries and a live one at time \<open>200000\<close>,
  and the state left by a first accepted call for key \<open>k\<close> at time \<open>0\<close> with
  \<open>max = 1\<close> and a window of \<open>100\<close> ms.
\<close>

definition sweep_example :: actor where
  "sweep_example =
     \<lparr>kv = [(''A'', \<lparr>count = 5, timestamp = 0, windowMs = 60000\<rparr>),
            (''B'', \<lparr>count = 3, timestamp = 0, windowMs = 60000\<rparr>),
            (''C'', \<lparr>count = 2, timestamp = 190000, windowMs = 60000\<rparr>)],
      alarmTime = Some 200000, ops = []\<rparr>"

definition opened_example :: actor where
  "opened_example = snd (checkLimit empty_actor 0 ''k'' 1 100)"

section \<open>Elementary facts\<close>

lemma map_of_update_other:
  "k \<noteq> key \<Longrightarrow> map_of (AList.update key v al) k = map_of al k"
  by (simp add: update_conv')

lemma map_of_put_same:
  "map_of (kv (storage_put i e s)) i = Some e"
  by (simp add: storage_put_def update_conv')

lemma set_update_cases:
  "x \<in> set (AList.update k v al) \<Longrightarrow> x = (k, v) \<or> x \<in> set al"
  by (induction al) (auto split: if_splits)

lemma map_of_filter_keys:
  "map_of (filter (\<lambda>(k, v). k \<notin> K) al) k = (if k \<in> K then None else map_of al k)"
  by (induction al) auto

text \<open>The three branches of \<^verbatim>\<open>checkLimit\<close>, with the storage calls unfolded.\<close>

lemma checkLimit_cases:
  "checkLimit s now i mx w =
    (case map_of (kv s) i of
       None \<Rightarrow>
         (\<lparr>success = True, remaining = mx - 1, reset = now + w, limit = mx\<rparr>,
          storage_put i \<lparr>count = 1, timestamp = now, windowMs = w\<rparr>
            (s\<lparr>ops := ops s @ [OpGet i]\<rparr>))
     | Some e \<Rightarrow>
         if timestamp e < now - w then
           (\<lparr>success = True, remaining = mx - 1, reset = now + w, limit = mx\<rparr>,
            storage_put i \<lparr>count = 1, timestamp = now, windowMs = w\<rparr>
              (s\<lparr>ops := ops s @ [OpGet i]\<rparr>))
         else if count e \<ge> mx then
           (\<lparr>success = False, remaining = 0, reset = timestamp e + w, limit = mx\<rparr>,
            s\<lparr>ops := ops s @ [OpGet i]\<rparr>)
         else
           (\<lparr>success = True, remaining = mx - (count e + 1), reset = timestamp e + w,
             limit = mx\<rparr>,
            storage_put i (e\<lparr>count := count e + 1, windowMs := w\<rparr>)
              (s\<lparr>ops := ops s @ [OpGet i]\<rparr>)))"
  by (simp add: checkLimit_def storage_get_def Let_def split: option.splits)

lemma checkLimit_seq_Cons:
  "fst (checkLimit_seq s i mx w (t # ts)) =
     fst (checkLimit s t i mx w) #
     fst (checkLimit_seq (snd (checkLimit s t i mx w)) i mx w ts)"
  by (simp add: split_beta)

lemma opened_example_entry:
  "map_of (kv opened_example) ''k'' = Some \<lparr>count = 1, timestamp = 0, windowMs = 100\<rparr>"
  by (simp add: opened_example_def checkLimit_cases empty_actor_def map_of_put_same)

text \<open>The sweep and the constructor, with the storage calls unfolded.\<close>

lemma alarm_unfold:
  "alarm s now now' =
     (if expiredKeys now (kv s) = [] then
        s\<lparr>alarmTime := Some (now' + CLEANUP_INTERVAL_MS),
          ops := ops s @ [OpList, OpSetAlarm (now' + CLEANUP_INTERVAL_MS)]\<rparr>
      else
        s\<lparr>kv := filter (\<lambda>(k, v). k \<notin> set (expiredKeys now (kv s))) (kv s),
          alarmTime := Some (now' + CLEANUP_INTERVAL_MS),
          ops := ops s @ [OpList, OpDelete (expiredKeys now (kv s)),
                          OpSetAlarm (now' + CLEANUP_INTERVAL_MS)]\<rparr>)"
  by (simp add: alarm_def storage_list_def storage_delete_def storage_setAlarm_def Let_def)

lemma alarm_kv:
  "kv (alarm s now now') = filter (\<lambda>(k, v). k \<notin> set (expiredKeys now (kv s))) (kv s)"
proof (cases "expiredKeys now (kv s) = []")
  case True
  then show ?thesis by (simp add: alarm_unfold case_prod_unfold)
next
  case False
  then show ?thesis by (simp add: alarm_unfold)
qed

lemma construct_unfold:
  "construct s now =
     (case alarmTime s of
        None \<Rightarrow> s\<lparr>alarmTime := Some (now + CLEANUP_INTERVAL_MS),
                  ops := ops s @ [OpGetAlarm, OpSetAlarm (now + CLEANUP_INTERVAL_MS)]\<rparr>
      | Some a \<Rightarrow> s\<lparr>ops := ops s @ [OpGetAlarm]\<rparr>)"
  by (simp add: construct_def scheduleCleanup_def storage_getAlarm_def storage_setAlarm_def
      split: option.splits)

lemma expiredKeys_set_raw:
  "set (expiredKeys now al) = {k. \<exists>e. (k, e) \<in> set al \<and> timestamp e + windowMs e < now}"
  by (induction al) (force simp: Let_def split: if_splits)+

lemma expiredKeys_set:
  "distinct (map fst al) \<Longrightarrow>
   set (expiredKeys now al) = {k. \<exists>e. map_of al k = Some e \<and> timestamp e + windowMs e < now}"
  by (simp add: expiredKeys_set_raw)

text \<open>Uniqueness of the keys holds in every state an actor can reach.\<close>

lemma storage_ok_step: "storage_ok s \<Longrightarrow> storage_ok (step s ev)"
proof (cases ev)
  case (Construct now)
  assume "storage_ok s"
  with Construct show ?thesis
    by (simp add: storage_ok_def construct_unfold split: option.splits)
next
  case (CheckLimit now i mx w)
  assume "storage_ok s"
  with CheckLimit show ?thesis
    by (simp add: storage_ok_def checkLimit_cases storage_put_def distinct_update
        split: option.splits)
next
  case (Alarm now now')
  assume "storage_ok s"
  with Alarm show ?thesis
    by (simp add: storage_ok_def alarm_kv distinct_map_filter)
qed

lemma storage_ok_run: "storage_ok s \<Longrightarrow> storage_ok (run s evs)"
  unfolding run_def by (induction evs arbitrary: s) (simp_all add: storage_ok_step)

lemma storage_ok_reachable: "storage_ok (run empty_actor evs)"
  by (rule storage_ok_run) (simp add: storage_ok_def empty_actor_def)

section \<open>The accept/reject boundary within one window\<close>

lemma countdown_Suc:
  "map (\<lambda>j. a - int j) [0..<Suc n] = a # map (\<lambda>j. (a - 1) - int j) [0..<n]"
proof -
  have "[0..<Suc n] = 0 # map Suc [0..<n]"
    by (simp add: upt_conv_Cons map_Suc_upt del: upt_Suc)
  then show ?thesis by (simp add: comp_def del: upt_Suc)
qed

text \<open>
  Calls that find an entry of the running window: \<open>n = max - count\<close> of them are
  accepted, counting \<open>remaining\<close> down to \<open>0\<close>, and the next one is rejected.
\<close>

lemma in_window_run:
  assumes "map_of (kv s) i = Some e"
      and "timestamp e = t0"
      and "count e \<le> mx"
      and "\<forall>t\<in>set ts. t \<le> t0 + w"
      and "length ts = Suc n"
      and "n = nat (mx - count e)"
  shows "map success (fst (checkLimit_seq s i mx w ts)) = replicate n True @ [False] \<and>
         map remaining (fst (checkLimit_seq s i mx w ts)) =
           map (\<lambda>j. (mx - count e - 1) - int j) [0..<n] @ [0]"
  using assms
proof (induction n arbitrary: s e ts)
  case 0
  then obtain t where ts: "ts = [t]" by (cases ts) auto
  from 0 have full: "mx \<le> count e" by simp
  from 0 ts have act: "\<not> timestamp e < t - w" by auto
  show ?case
    using "0.prems"(1) full act by (simp add: ts checkLimit_cases)
next
  case (Suc n)
  then obtain t ts' where ts: "ts = t # ts'" by (cases ts) auto
  from Suc.prems have below: "\<not> mx \<le> count e" by simp
  from Suc.prems ts have act: "\<not> timestamp e < t - w" by auto
  let ?e' = "e\<lparr>count := count e + 1, windowMs := w\<rparr>"
  let ?s' = "storage_put i ?e' (s\<lparr>ops := ops s @ [OpGet i]\<rparr>)"
  have call: "checkLimit s t i mx w =
      (\<lparr>success = True, remaining = mx - (count e + 1), reset = timestamp e + w,
        limit = mx\<rparr>, ?s')"
    using Suc.prems(1) below act by (simp add: checkLimit_cases)
  have IH: "map success (fst (checkLimit_seq ?s' i mx w ts')) = replicate n True @ [False] \<and>
         map remaining (fst (checkLimit_seq ?s' i mx w ts')) =
           map (\<lambda>j. (mx - count ?e' - 1) - int j) [0..<n] @ [0]"
  proof (rule Suc.IH)
    show "map_of (kv ?s') i = Some ?e'" by (rule map_of_put_same)
    show "timestamp ?e' = t0" using Suc.prems(2) by simp
    show "count ?e' \<le> mx" using below by simp
    show "\<forall>t\<in>set ts'. t \<le> t0 + w" using Suc.prems(4) ts by simp
    show "length ts' = Suc n" using Suc.prems(5) ts by simp
    show "n = nat (mx - count ?e')" using Suc.prems(6) by simp
  qed
  have r: "mx - count ?e' - 1 = (mx - count e - 1) - 1" by simp
  show ?case
    using IH unfolding r
    by (simp add: ts call checkLimit_seq_Cons countdown_Suc
        del: upt_Suc checkLimit_seq.simps)
qed

text \<open>
  Claim C1. Let \<open>max \<ge> 1\<close>, and let the first call, at time \<open>t0\<close>, open a window
  (it finds no entry for the identifier, or one whose window has elapsed). If the
  \<open>max\<close> calls that follow are all made at times \<open>t \<le> t0 + windowMs\<close>, that is before
  the window has elapsed, then the first \<open>max\<close> calls of the sequence return
  \<open>success = true\<close> with \<open>remaining = max - 1, max - 2, ..., 0\<close>, and call number
  \<open>max + 1\<close> returns \<open>success = false\<close> with \<open>remaining = 0\<close>. No lower bound on
  \<open>windowMs\<close> is needed.
\<close>

theorem checkLimit_accept_reject_boundary:
  assumes "1 \<le> mx"
      and "map_of (kv s) identifier = None \<or>
           (\<exists>e. map_of (kv s) identifier = Some e \<and> timestamp e + wMs < t0)"
      and "length ts = nat mx"
      and "\<forall>t\<in>set ts. t \<le> t0 + wMs"
  shows "map success (fst (checkLimit_seq s identifier mx wMs (t0 # ts))) =
           replicate (nat mx) True @ [False] \<and>
         map remaining (fst (checkLimit_seq s identifier mx wMs (t0 # ts))) =
           map (\<lambda>j. (mx - 1) - int j) [0..<nat mx] @ [0]"
proof -
  let ?e = "\<lparr>count = 1, timestamp = t0, windowMs = wMs\<rparr>"
  let ?s' = "storage_put identifier ?e (s\<lparr>ops := ops s @ [OpGet identifier]\<rparr>)"
  have call: "checkLimit s t0 identifier mx wMs =
      (\<lparr>success = True, remaining = mx - 1, reset = t0 + wMs, limit = mx\<rparr>, ?s')"
    using assms(2) by (auto simp: checkLimit_cases)
  obtain n where n: "nat mx = Suc n" "n = nat (mx - 1)"
    using assms(1) by (cases "nat mx") auto
  have rest: "map success (fst (checkLimit_seq ?s' identifier mx wMs ts)) =
           replicate n True @ [False] \<and>
         map remaining (fst (checkLimit_seq ?s' identifier mx wMs ts)) =
           map (\<lambda>j. (mx - count ?e - 1) - int j) [0..<n] @ [0]"
  proof (rule in_window_run)
    show "map_of (kv ?s') identifier = Some ?e" by (rule map_of_put_same)
    show "timestamp ?e = t0" by simp
    show "count ?e \<le> mx" using assms(1) by simp
    show "\<forall>t\<in>set ts. t \<le> t0 + wMs" by (rule assms(4))
    show "length ts = Suc n" using assms(3) n by simp
    show "n = nat (mx - count ?e)" using n by simp
  qed
  have r: "mx - count ?e - 1 = (mx - 1) - 1" by simp
  show ?thesis
    using rest unfolding r n(1)
    by (simp add: call checkLimit_seq_Cons countdown_Suc del: upt_Suc checkLimit_seq.simps)
qed

text \<open>
  The theorem at \<open>max = 3\<close>, \<open>windowMs = 100\<close>: calls at \<open>0, 5, 50\<close> are accepted with
  \<open>remaining = 2, 1, 0\<close>, and the fourth, at the last instant of the window, is rejected.
\<close>

theorem checkLimit_accept_reject_boundary_witness:
  "(1::int) \<le> 3 \<and> map_of (kv empty_actor) ''user'' = None \<and>
   length [5, 50, 100 :: int] = nat 3 \<and>
   map success (fst (checkLimit_seq empty_actor ''user'' 3 100 [0, 5, 50, 100])) =
     [True, True, True, False] \<and>
   map remaining (fst (checkLimit_seq empty_actor ''user'' 3 100 [0, 5, 50, 100])) =
     [2, 1, 0, 0]"
  using checkLimit_accept_reject_boundary [of 3 empty_actor "''user''" 100 0 "[5, 50, 100]"]
  by (simp add: empty_actor_def upt_conv_Cons eval_nat_numeral)

section \<open>Expiry of a stored window\<close>

text \<open>
  Claim C2, as the code has it. When an entry is stored for the identifier, the
  window counts as elapsed, and a fresh one is started, exactly when
  \<open>entry.timestamp + windowMs < now\<close> for the \<open>windowMs\<close> passed on the current call
  (the source tests \<open>entry.timestamp < now - windowMs\<close>); the \<open>windowMs\<close> recorded in
  the entry plays no part in the decision. Otherwise the window is kept: the
  timestamp stays, the count stays or grows by one, and \<open>reset\<close> is
  \<open>entry.timestamp + windowMs\<close> of the argument.
\<close>

theorem expiry_uses_argument_window:
  assumes "map_of (kv s) identifier = Some e"
  shows "(timestamp e + wMs < now \<longrightarrow>
            fst (checkLimit s now identifier mx wMs) =
              \<lparr>success = True, remaining = mx - 1, reset = now + wMs, limit = mx\<rparr> \<and>
            map_of (kv (snd (checkLimit s now identifier mx wMs))) identifier =
              Some \<lparr>count = 1, timestamp = now, windowMs = wMs\<rparr>) \<and>
         (\<not> timestamp e + wMs < now \<longrightarrow>
            (\<exists>e'. map_of (kv (snd (checkLimit s now identifier mx wMs))) identifier = Some e' \<and>
                  timestamp e' = timestamp e \<and>
                  count e' = (if mx \<le> count e then count e else count e + 1)) \<and>
            reset (fst (checkLimit s now identifier mx wMs)) = timestamp e + wMs)"
  using assms by (auto simp: checkLimit_cases map_of_put_same)

text \<open>
  An entry opened at \<open>0\<close> with a window of \<open>100\<close>: a call at \<open>101\<close> with the same
  window starts afresh, a call at \<open>100\<close> does not.
\<close>

theorem expiry_uses_argument_window_witness:
  "map_of (kv (snd (checkLimit empty_actor 0 ''k'' 10 100))) ''k'' =
     Some \<lparr>count = 1, timestamp = 0, windowMs = 100\<rparr> \<and>
   fst (checkLimit (snd (checkLimit empty_actor 0 ''k'' 10 100)) 101 ''k'' 10 100) =
     \<lparr>success = True, remaining = 9, reset = 201, limit = 10\<rparr> \<and>
   reset (fst (checkLimit (snd (checkLimit empty_actor 0 ''k'' 10 100)) 100 ''k'' 10 100)) = 100"
proof -
  have h: "map_of (kv (snd (checkLimit empty_actor 0 ''k'' 10 100))) ''k'' =
     Some \<lparr>count = 1, timestamp = 0, windowMs = 100\<rparr>"
    by (simp add: checkLimit_cases empty_actor_def map_of_put_same)
  show ?thesis
    using h expiry_uses_argument_window [OF h, of 100 101 10]
      expiry_uses_argument_window [OF h, of 100 100 10]
    by simp
qed

text \<open>
  The claim as worded fails. The entry written at \<open>0\<close> records \<open>windowMs = 100\<close>, so
  at \<open>now = 150\<close> the test \<open>entry.timestamp + entry.windowMs < now\<close> holds; a call
  passing \<open>windowMs = 200\<close> nevertheless finds the window active and counts in it.
  Conversely an entry recording \<open>windowMs = 200\<close> fails that test at \<open>150\<close>, and a
  call passing \<open>windowMs = 100\<close> starts a fresh window.
\<close>

theorem expiry_by_stored_window_counterexample:
  "map_of (kv (snd (checkLimit empty_actor 0 ''k'' 10 100))) ''k'' =
     Some \<lparr>count = 1, timestamp = 0, windowMs = 100\<rparr> \<and>
   (0::int) + 100 < 150 \<and>
   fst (checkLimit (snd (checkLimit empty_actor 0 ''k'' 10 100)) 150 ''k'' 10 200) =
     \<lparr>success = True, remaining = 8, reset = 200, limit = 10\<rparr> \<and>
   map_of (kv (snd (checkLimit (snd (checkLimit empty_actor 0 ''k'' 10 100)) 150 ''k'' 10 200)))
     ''k'' = Some \<lparr>count = 2, timestamp = 0, windowMs = 200\<rparr> \<and>
   map_of (kv (snd (checkLimit empty_actor 0 ''k'' 10 200))) ''k'' =
     Some \<lparr>count = 1, timestamp = 0, windowMs = 200\<rparr> \<and>
   \<not> (0::int) + 200 < 150 \<and>
   map_of (kv (snd (checkLimit (snd (checkLimit empty_actor 0 ''k'' 10 200)) 150 ''k'' 10 100)))
     ''k'' = Some \<lparr>count = 1, timestamp = 150, windowMs = 100\<rparr>"
  by (simp add: checkLimit_cases empty_actor_def storage_put_def)

section \<open>The rejected call\<close>

text \<open>
  Claim C3, as the code has it. A call that finds a stored entry whose window is
  active (\<open>entry.timestamp >= now - windowMs\<close>, the test of the source) and whose
  count has reached \<open>max\<close> returns
  \<open>{success: false, remaining: 0, reset: entry.timestamp + windowMs, limit: max}\<close>,
  where \<open>windowMs\<close> is the argument of the current call; it equals the window
  length recorded in the entry when the caller passes the same value again.
\<close>

theorem rejected_result:
  assumes "map_of (kv s) identifier = Some e"
      and "\<not> timestamp e < now - wMs"
      and "mx \<le> count e"
  shows "fst (checkLimit s now identifier mx wMs) =
           \<lparr>success = False, remaining = 0, reset = timestamp e + wMs, limit = mx\<rparr> \<and>
         (windowMs e = wMs \<longrightarrow>
            reset (fst (checkLimit s now identifier mx wMs)) = timestamp e + windowMs e)"
  using assms by (simp add: checkLimit_cases)

theorem rejected_result_witness:
  "map_of (kv opened_example) ''k'' = Some \<lparr>count = 1, timestamp = 0, windowMs = 100\<rparr> \<and>
   fst (checkLimit opened_example 50 ''k'' 1 100) =
     \<lparr>success = False, remaining = 0, reset = 100, limit = 1\<rparr>"
  using opened_example_entry
    rejected_result [OF opened_example_entry, of 50 100 1]
  by simp

text \<open>
  The claim as worded fails: the entry records \<open>windowMs = 100\<close>, its window is
  active at \<open>now = 50\<close> under either window length, and a rejected call passing
  \<open>windowMs = 200\<close> reports \<open>reset = 200\<close>, not \<open>entry.timestamp + entry.windowMs = 100\<close>.
  Nor is the recorded window length what keeps a window active: an entry recording
  \<open>windowMs = 200\<close> with a count that has reached \<open>max = 1\<close> is, at \<open>now = 150\<close>,
  within its recorded window, and a call passing \<open>windowMs = 100\<close> is accepted in a
  fresh window.
\<close>

theorem rejected_reset_counterexample:
  "map_of (kv opened_example) ''k'' = Some \<lparr>count = 1, timestamp = 0, windowMs = 100\<rparr> \<and>
   \<not> (0::int) + 100 < 50 \<and> \<not> (0::int) + 200 < 50 \<and>
   fst (checkLimit opened_example 50 ''k'' 1 200) =
     \<lparr>success = False, remaining = 0, reset = 200, limit = 1\<rparr> \<and>
   reset (fst (checkLimit opened_example 50 ''k'' 1 200)) \<noteq> 0 + 100 \<and>
   map_of (kv (snd (checkLimit empty_actor 0 ''k'' 1 200))) ''k'' =
     Some \<lparr>count = 1, timestamp = 0, windowMs = 200\<rparr> \<and>
   \<not> (0::int) + 200 < 150 \<and>
   fst (checkLimit (snd (checkLimit empty_actor 0 ''k'' 1 200)) 150 ''k'' 1 100) =
     \<lparr>success = True, remaining = 0, reset = 250, limit = 1\<rparr>"
  using opened_example_entry
  by (simp add: checkLimit_cases empty_actor_def storage_put_def)

section \<open>Window reset\<close>

text \<open>
  Claim C4, as the code has it. For a stored entry and a call time with
  \<open>now > entry.timestamp + windowMs\<close>, strictly and for the \<open>windowMs\<close> passed on the
  call, the call returns \<open>success = true\<close> and \<open>remaining = max - 1\<close> whatever the
  stored count is, and the stored entry becomes a fresh window of count \<open>1\<close>.
\<close>

theorem window_reset_after_elapse:
  assumes "map_of (kv s) identifier = Some e"
      and "timestamp e + wMs < now"
  shows "success (fst (checkLimit s now identifier mx wMs)) \<and>
         remaining (fst (checkLimit s now identifier mx wMs)) = mx - 1 \<and>
         map_of (kv (snd (checkLimit s now identifier mx wMs))) identifier =
           Some \<lparr>count = 1, timestamp = now, windowMs = wMs\<rparr>"
  using assms by (simp add: checkLimit_cases map_of_put_same)

theorem window_reset_after_elapse_witness:
  "map_of (kv opened_example) ''k'' = Some \<lparr>count = 1, timestamp = 0, windowMs = 100\<rparr> \<and>
   (0::int) + 100 < 101 \<and>
   success (fst (checkLimit opened_example 101 ''k'' 1 100)) \<and>
   remaining (fst (checkLimit opened_example 101 ''k'' 1 100)) = 0"
  using opened_example_entry
    window_reset_after_elapse [OF opened_example_entry, of 100 101 1]
  by simp

text \<open>
  The claim as worded fails at the boundary instant: the entry has
  \<open>timestamp + windowMs = 100\<close> and a count that has reached \<open>max = 1\<close>; the call at
  \<open>now = 100\<close> is rejected. It also fails past the recorded window when the call
  passes a longer one: at \<open>now = 150\<close> with \<open>windowMs = 200\<close> the call is rejected.
\<close>

theorem window_reset_boundary_counterexample:
  "map_of (kv opened_example) ''k'' = Some \<lparr>count = 1, timestamp = 0, windowMs = 100\<rparr> \<and>
   (100::int) \<ge> 0 + 100 \<and>
   fst (checkLimit opened_example 100 ''k'' 1 100) =
     \<lparr>success = False, remaining = 0, reset = 100, limit = 1\<rparr> \<and>
   (150::int) \<ge> 0 + 100 \<and>
   fst (checkLimit opened_example 150 ''k'' 1 200) =
     \<lparr>success = False, remaining = 0, reset = 200, limit = 1\<rparr>"
  using opened_example_entry by (simp add: checkLimit_cases)

section \<open>The expiry sweep\<close>

text \<open>
  Claim C5. One \<^verbatim>\<open>alarm\<close> invocation whose first clock reading is \<open>now\<close> removes
  exactly the stored entries with \<open>entry.timestamp + entry.windowMs < now\<close>: every
  other key keeps its value. The keys passed to \<open>delete\<close> are those entries'
  keys; when there is none, the calls issued are the listing and \<open>setAlarm\<close> only,
  with no \<open>delete\<close>, and the deadline is set all the same.
\<close>

theorem alarm_sweep_exact:
  assumes "storage_ok s"
  shows "map_of (kv (alarm s now now')) k =
           (case map_of (kv s) k of
              None \<Rightarrow> None
            | Some e \<Rightarrow> if timestamp e + windowMs e < now then None else Some e) \<and>
         set (expiredKeys now (kv s)) =
           {k. \<exists>e. map_of (kv s) k = Some e \<and> timestamp e + windowMs e < now} \<and>
         ops (alarm s now now') =
           ops s @ [OpList] @
           (if {k. \<exists>e. map_of (kv s) k = Some e \<and> timestamp e + windowMs e < now} = {}
            then [] else [OpDelete (expiredKeys now (kv s))]) @
           [OpSetAlarm (now' + CLEANUP_INTERVAL_MS)] \<and>
         alarmTime (alarm s now now') = Some (now' + CLEANUP_INTERVAL_MS)"
proof -
  have d: "distinct (map fst (kv s))"
    using assms by (simp add: storage_ok_def)
  have E: "set (expiredKeys now (kv s)) =
           {k. \<exists>e. map_of (kv s) k = Some e \<and> timestamp e + windowMs e < now}"
    by (rule expiredKeys_set [OF d])
  have "map_of (kv (alarm s now now')) k =
          (if k \<in> set (expiredKeys now (kv s)) then None else map_of (kv s) k)"
    by (simp only: alarm_kv map_of_filter_keys)
  then have M: "map_of (kv (alarm s now now')) k =
           (case map_of (kv s) k of
              None \<Rightarrow> None
            | Some e \<Rightarrow> if timestamp e + windowMs e < now then None else Some e)"
    by (auto simp: E split: option.splits)
  have "(expiredKeys now (kv s) = []) =
        ({k. \<exists>e. map_of (kv s) k = Some e \<and> timestamp e + windowMs e < now} = {})"
    using E by (metis set_empty)
  then have O: "ops (alarm s now now') =
           ops s @ [OpList] @
           (if {k. \<exists>e. map_of (kv s) k = Some e \<and> timestamp e + windowMs e < now} = {}
            then [] else [OpDelete (expiredKeys now (kv s))]) @
           [OpSetAlarm (now' + CLEANUP_INTERVAL_MS)]"
    by (simp add: alarm_unfold)
  have A: "alarmTime (alarm s now now') = Some (now' + CLEANUP_INTERVAL_MS)"
    by (simp add: alarm_unfold)
  from M E O A show ?thesis by blast
qed

text \<open>
  The entries \<open>{A: expired, B: expired, C: live}\<close> swept at \<open>200000\<close>: \<open>A\<close> and \<open>B\<close>
  go in one \<open>delete\<close>, \<open>C\<close> stays as it was. Swept at \<open>60000\<close>, when nothing has
  expired yet, no \<open>delete\<close> is issued.
\<close>

theorem alarm_sweep_exact_witness:
  "storage_ok sweep_example \<and>
   map_of (kv (alarm sweep_example 200000 200001)) ''A'' = None \<and>
   map_of (kv (alarm sweep_example 200000 200001)) ''B'' = None \<and>
   map_of (kv (alarm sweep_example 200000 200001)) ''C'' =
     Some \<lparr>count = 2, timestamp = 190000, windowMs = 60000\<rparr> \<and>
   ops (alarm sweep_example 200000 200001) =
     [OpList, OpDelete [''A'', ''B''], OpSetAlarm 43400001] \<and>
   ops (alarm sweep_example 60000 60000) = [OpList, OpSetAlarm 43260000]"
proof -
  have h: "storage_ok sweep_example"
    by (simp add: storage_ok_def sweep_example_def)
  have a: "map_of (kv (alarm sweep_example 200000 200001)) ''A'' = None"
    using alarm_sweep_exact [OF h, of 200000 200001 "''A''", THEN conjunct1]
    by (simp add: sweep_example_def)
  have b: "map_of (kv (alarm sweep_example 200000 200001)) ''B'' = None"
    using alarm_sweep_exact [OF h, of 200000 200001 "''B''", THEN conjunct1]
    by (simp add: sweep_example_def)
  have c: "map_of (kv (alarm sweep_example 200000 200001)) ''C'' =
     Some \<lparr>count = 2, timestamp = 190000, windowMs = 60000\<rparr>"
    using alarm_sweep_exact [OF h, of 200000 200001 "''C''", THEN conjunct1]
    by (simp add: sweep_example_def)
  have o: "ops (alarm sweep_example 200000 200001) =
     [OpList, OpDelete [''A'', ''B''], OpSetAlarm 43400001]"
    by (simp add: alarm_unfold sweep_example_def CLEANUP_INTERVAL_MS_def)
  have n: "ops (alarm sweep_example 60000 60000) = [OpList, OpSetAlarm 43260000]"
    by (simp add: alarm_unfold sweep_example_def CLEANUP_INTERVAL_MS_def)
  from h a b c o n show ?thesis by blast
qed

section \<open>The pending deadline\<close>

text \<open>
  Claim C6. After construction a deadline is pending: when none existed it is set
  to the clock reading plus \<open>CLEANUP_INTERVAL_MS\<close> (12 hours, \<open>43200000\<close> ms), and an
  existing one is left as it is, no \<open>setAlarm\<close> being issued. Every \<^verbatim>\<open>alarm\<close>
  invocation ends with \<open>setAlarm\<close> of the clock reading of that step plus
  \<open>CLEANUP_INTERVAL_MS\<close>, whatever the key space holds.
\<close>

theorem alarm_always_pending:
  "alarmTime (construct s now) \<noteq> None \<and>
   (alarmTime s = None \<longrightarrow>
      alarmTime (construct s now) = Some (now + 43200000) \<and>
      ops (construct s now) = ops s @ [OpGetAlarm, OpSetAlarm (now + 43200000)]) \<and>
   (\<forall>a. alarmTime s = Some a \<longrightarrow>
      alarmTime (construct s now) = Some a \<and> ops (construct s now) = ops s @ [OpGetAlarm]) \<and>
   alarmTime (alarm s t t') = Some (t' + 43200000) \<and>
   last (ops (alarm s t t')) = OpSetAlarm (t' + 43200000) \<and>
   CLEANUP_INTERVAL_MS = 12 * 60 * 60 * 1000"
  by (simp add: construct_unfold alarm_unfold CLEANUP_INTERVAL_MS_def split: option.splits)

text \<open>
  A new actor constructed at \<open>1000\<close> gets the deadline \<open>43201000\<close>; constructing it
  again at \<open>5000\<close> keeps that deadline; a sweep of the empty key space at \<open>7000\<close>
  moves it to \<open>43207000\<close>.
\<close>

theorem alarm_always_pending_witness:
  "alarmTime empty_actor = None \<and>
   alarmTime (construct empty_actor 1000) = Some 43201000 \<and>
   alarmTime (construct (construct empty_actor 1000) 5000) = Some 43201000 \<and>
   alarmTime (alarm empty_actor 7000 7000) = Some 43207000"
  using alarm_always_pending [of empty_actor 1000 7000 7000]
    alarm_always_pending [of "construct empty_actor 1000" 5000 7000 7000]
  by (simp add: empty_actor_def)

section \<open>Frame of a call\<close>

text \<open>
  Claim C7. A \<^verbatim>\<open>checkLimit\<close> call leaves the value of every key other than its
  identifier as it was, and a call that returns \<open>success = false\<close> leaves the whole
  key space, the entry of the identifier included, and the deadline as they were.
\<close>

theorem checkLimit_frame:
  "(k \<noteq> identifier \<longrightarrow>
      map_of (kv (snd (checkLimit s now identifier mx wMs))) k = map_of (kv s) k) \<and>
   (\<not> success (fst (checkLimit s now identifier mx wMs)) \<longrightarrow>
      kv (snd (checkLimit s now identifier mx wMs)) = kv s \<and>
      alarmTime (snd (checkLimit s now identifier mx wMs)) = alarmTime s)"
  by (simp add: checkLimit_cases storage_put_def map_of_update_other split: option.splits)

theorem checkLimit_frame_witness:
  "''k'' \<noteq> ''j'' \<and>
   map_of (kv (snd (checkLimit opened_example 10 ''j'' 1 100))) ''k'' =
     Some \<lparr>count = 1, timestamp = 0, windowMs = 100\<rparr> \<and>
   \<not> success (fst (checkLimit opened_example 50 ''k'' 1 100)) \<and>
   kv (snd (checkLimit opened_example 50 ''k'' 1 100)) = kv opened_example"
proof -
  have r: "\<not> success (fst (checkLimit opened_example 50 ''k'' 1 100))"
    using opened_example_entry by (simp add: checkLimit_cases)
  show ?thesis
    using r opened_example_entry
      checkLimit_frame [of "''k''" "''j''" opened_example 10 1 100]
      checkLimit_frame [of "''k''" "''k''" opened_example 50 1 100]
    by simp
qed

section \<open>The empty identifier\<close>

text \<open>
  Claim C8. A \<^verbatim>\<open>checkLimit\<close> call with an empty identifier is to be refused with a
  validation error before any storage access, and the adapter's test
  "should throw an error when key is empty" expects \<^verbatim>\<open>limit("")\<close> to reject with
  "Key cannot be empty". The code has no such check. On a new actor
  \<^verbatim>\<open>checkLimit("", 10, 60000)\<close> at time \<open>0\<close> reads the key \<open>""\<close>, writes
  \<open>{count: 1, timestamp: 0, windowMs: 60000}\<close> under it and returns
  \<open>success = true\<close>; and \<^verbatim>\<open>limit("")\<close> of an adapter with the default prefix does
  the same under the key \<open>"orpc:ratelimit:"\<close>, and under the key \<open>""\<close> when the
  prefix is empty.
\<close>

theorem empty_identifier_accepted:
  "checkLimit empty_actor 0 [] 10 60000 =
     (\<lparr>success = True, remaining = 9, reset = 60000, limit = 10\<rparr>,
      \<lparr>kv = [([], \<lparr>count = 1, timestamp = 0, windowMs = 60000\<rparr>)],
       alarmTime = None,
       ops = [OpGet [], OpPut [] \<lparr>count = 1, timestamp = 0, windowMs = 60000\<rparr>]\<rparr>) \<and>
   adapter_limit \<lparr>prefix = None, maxRequests = 10, window = 60000\<rparr> empty_actor 0 [] =
     (\<lparr>success = True, remaining = 9, reset = 60000, limit = 10\<rparr>,
      \<lparr>kv = [(''orpc:ratelimit:'', \<lparr>count = 1, timestamp = 0, windowMs = 60000\<rparr>)],
       alarmTime = None,
       ops = [OpGet ''orpc:ratelimit:'',
              OpPut ''orpc:ratelimit:'' \<lparr>count = 1, timestamp = 0, windowMs = 60000\<rparr>]\<rparr>) \<and>
   adapter_limit \<lparr>prefix = Some [], maxRequests = 10, window = 60000\<rparr> empty_actor 0 [] =
     checkLimit empty_actor 0 [] 10 60000"
  by (simp add: adapter_limit_def adapter_prefix_def Let_def checkLimit_cases empty_actor_def
      storage_put_def)

section \<open>Positive counts\<close>

lemma counts_positive_checkLimit:
  assumes "\<forall>(k, e) \<in> set (kv s). 0 < count e"
  shows "\<forall>(k, e) \<in> set (kv (snd (checkLimit s now i mx w))). 0 < count e"
proof (cases "map_of (kv s) i")
  case None
  then show ?thesis
    using assms by (auto simp: checkLimit_cases storage_put_def dest!: set_update_cases)
next
  case (Some e0)
  then have "(i, e0) \<in> set (kv s)" by (rule map_of_SomeD)
  with assms have "0 < count e0" by auto
  with Some show ?thesis
    using assms by (auto simp: checkLimit_cases storage_put_def dest!: set_update_cases)
qed

lemma counts_positive_alarm:
  assumes "\<forall>(k, e) \<in> set (kv s). 0 < count e"
  shows "\<forall>(k, e) \<in> set (kv (alarm s now now')). 0 < count e"
  using assms by (auto simp: alarm_kv)

lemma counts_positive_step:
  assumes "\<forall>(k, e) \<in> set (kv s). 0 < count e"
  shows "\<forall>(k, e) \<in> set (kv (step s ev)). 0 < count e"
proof (cases ev)
  case (Construct now)
  then show ?thesis using assms by (simp add: construct_unfold split: option.splits)
next
  case (CheckLimit now i mx w)
  then show ?thesis using counts_positive_checkLimit [OF assms] by simp
next
  case (Alarm now now')
  then show ?thesis using counts_positive_alarm [OF assms] by simp
qed

lemma counts_positive_run:
  "\<forall>(k, e) \<in> set (kv s). 0 < count e \<Longrightarrow> \<forall>(k, e) \<in> set (kv (run s evs)). 0 < count e"
  unfolding run_def
proof (induction evs arbitrary: s)
  case Nil
  then show ?case by simp
next
  case (Cons ev evs)
  show ?case
    using Cons.IH [OF counts_positive_step [OF Cons.prems]] by simp
qed

text \<open>
  Claim C9. After any sequence of constructions, \<^verbatim>\<open>checkLimit\<close> calls (with any
  arguments and clock readings) and sweeps, started on empty storage, every stored
  entry has \<open>0 < count\<close>.
\<close>

theorem count_positive_invariant:
  "\<forall>(k, e) \<in> set (kv (run empty_actor evs)). 0 < count e"
proof -
  have "\<forall>(k, e) \<in> set (kv empty_actor). 0 < count e"
    by (simp add: empty_actor_def)
  then show ?thesis by (rule counts_positive_run)
qed

text \<open>
  A history with two identifiers, a rejected call and a sweep that removes one of
  the entries: the entry that remains has count \<open>2\<close>.
\<close>

theorem count_positive_invariant_witness:
  "kv (run empty_actor
         [Construct 0, CheckLimit 10 ''a'' 2 100, CheckLimit 200 ''b'' 2 100,
          CheckLimit 210 ''b'' 2 100, CheckLimit 220 ''b'' 2 100, Alarm 250 251]) =
     [(''b'', \<lparr>count = 2, timestamp = 200, windowMs = 100\<rparr>)] \<and>
   (0::int) < count \<lparr>count = 2, timestamp = 200, windowMs = 100\<rparr>"
proof -
  have k: "kv (run empty_actor
         [Construct 0, CheckLimit 10 ''a'' 2 100, CheckLimit 200 ''b'' 2 100,
          CheckLimit 210 ''b'' 2 100, CheckLimit 220 ''b'' 2 100, Alarm 250 251]) =
     [(''b'', \<lparr>count = 2, timestamp = 200, windowMs = 100\<rparr>)]"
    by (simp add: run_def empty_actor_def construct_unfold checkLimit_cases storage_put_def
        alarm_unfold)
  show ?thesis
    using k count_positive_invariant
      [of "[Construct 0, CheckLimit 10 ''a'' 2 100, CheckLimit 200 ''b'' 2 100,
            CheckLimit 210 ''b'' 2 100, CheckLimit 220 ''b'' 2 100, Alarm 250 251]"]
    by simp
qed

section \<open>Determinism\<close>

text \<open>
  Claim C10. The result of \<^verbatim>\<open>checkLimit\<close> and the key space it leaves are
  functions of the key space it finds, the clock reading and the three arguments:
  two runs that agree on these return the same \<open>{success, remaining, reset, limit}\<close>
  and leave the same key space, whatever else differs between the two actors (the
  pending deadline, the calls issued before).
\<close>

theorem checkLimit_deterministic:
  "kv s = kv s' \<Longrightarrow>
     fst (checkLimit s now identifier mx wMs) = fst (checkLimit s' now identifier mx wMs) \<and>
     kv (snd (checkLimit s now identifier mx wMs)) =
       kv (snd (checkLimit s' now identifier mx wMs))"
  by (simp add: checkLimit_cases storage_put_def split: option.splits)

theorem checkLimit_deterministic_witness:
  "kv opened_example = kv (opened_example\<lparr>alarmTime := Some 5, ops := []\<rparr>) \<and>
   fst (checkLimit opened_example 20 ''k'' 3 100) =
     fst (checkLimit (opened_example\<lparr>alarmTime := Some 5, ops := []\<rparr>) 20 ''k'' 3 100) \<and>
   kv (snd (checkLimit opened_example 20 ''k'' 3 100)) =
     kv (snd (checkLimit (opened_example\<lparr>alarmTime := Some 5, ops := []\<rparr>) 20 ''k'' 3 100))"
  using checkLimit_deterministic
    [of opened_example "opened_example\<lparr>alarmTime := Some 5, ops := []\<rparr>" 20 "''k''" 3 100]
  by simp

end
